theory Spec2Isabelle
  imports Complex_Main "HOL-Library.Multiset" "HOL-Library.Multiset_Order" "HOL-Library.Log_Nat"
begin

section \<open>Trajectories (fastrack/planning/trajectory.h)\<close>

text \<open>
  A \<open>Trajectory<S>\<close> holds two parallel vectors, \<open>states_\<close> and \<open>times_\<close> (the fields
  \<open>traj_states\<close> and \<open>traj_times\<close>: a constant cannot end in an underscore).
  The state type \<open>S\<close> is a template parameter with scalar multiplication and addition;
  it is a type variable of class \<open>real_vector\<close> here. A finite C++ \<open>double\<close> is the real
  number it denotes; infinities, NaN and overflow are outside the model. Comparisons of
  doubles are exact. The sums and differences by which the planner computes times and
  costs are rounded to the nearest double (\<open>double_add\<close>, \<open>double_sub\<close> below); the
  arithmetic inside \<open>Interpolate\<close> and the norms that the planner compares are taken
  exactly.

  \<open>std::vector::operator[]\<close>, \<open>front()\<close> and \<open>back()\<close> do not check their index. A read
  past the end, and a dereference of a null pointer, is a value of type \<open>error\<close>.
\<close>

record 's trajectory =
  traj_states :: "'s list"
  traj_times :: "real list"

datatype error = OutOfRange nat | NullDeref

text \<open>
  The loop of the constructor, from index \<open>ii\<close> on:
  \<^verbatim>\<open>for (size_t ii = 1; ii < times_.size(); ii++) {
    if (times_[ii - 1] > times_[ii]) { times_[ii] = times_[ii + 1]; } }\<close>
  The read of \<open>times_[ii + 1]\<close> is past the end when \<open>ii\<close> is the last index.
\<close>

function fix_inversions :: "nat \<Rightarrow> real list \<Rightarrow> error + real list" where
  "fix_inversions ii ts =
     (if ii < length ts then
        (if ts ! (ii - 1) > ts ! ii then
           (if ii + 1 < length ts then fix_inversions (ii + 1) (ts[ii := ts ! (ii + 1)])
            else Inl (OutOfRange (ii + 1)))
         else fix_inversions (ii + 1) ts)
      else Inr ts)"
  by pat_completeness auto
termination
  by (relation "measure (\<lambda>(ii, ts). length ts - ii)") auto

declare fix_inversions.simps [simp del]

text \<open>
  The constructor \<open>Trajectory(states, times)\<close>: the longer vector is resized to the length
  of the shorter one, then the inversion loop runs from index 1.
\<close>

definition Trajectory :: "'s list \<Rightarrow> real list \<Rightarrow> error + 's trajectory" where
  "Trajectory ss ts =
     (let ss' = (if length ss \<noteq> length ts \<and> length ss > length ts
                 then take (length ts) ss else ss);
          ts' = (if length ss \<noteq> length ts \<and> \<not> length ss > length ts
                 then take (length ss) ts else ts)
      in case fix_inversions 1 ts' of
           Inl e \<Rightarrow> Inl e
         | Inr ts'' \<Rightarrow> Inr \<lparr>traj_states = ss', traj_times = ts''\<rparr>)"

text \<open>
  \<open>std::lower_bound(times_.begin(), times_.end(), t)\<close> is the binary search of the
  standard library (libstdc++ and libc++ have the same loop):
  \<^verbatim>\<open>while (len > 0) { half = len >> 1; middle = first + half;
    if (*middle < val) { first = middle + 1; len = len - half - 1; } else len = half; }
  return first;\<close>
  On a sorted range the result is the offset of the first element that does not compare
  less than \<open>t\<close>, the length when there is none.
\<close>

function lower_bound_loop :: "real list \<Rightarrow> real \<Rightarrow> nat \<Rightarrow> nat \<Rightarrow> nat" where
  "lower_bound_loop ts t first len =
     (if len > 0 then
        (let half = len div 2; middle = first + half in
         if ts ! middle < t then lower_bound_loop ts t (middle + 1) (len - half - 1)
         else lower_bound_loop ts t first half)
      else first)"
  by pat_completeness auto
termination
  by (relation "measure (\<lambda>(ts, t, first, len). len)") auto

declare lower_bound_loop.simps [simp del]

definition lower_bound :: "real list \<Rightarrow> real \<Rightarrow> nat" where
  "lower_bound ts t = lower_bound_loop ts t 0 (length ts)"

definition vec_front :: "'a list \<Rightarrow> error + 'a" where
  "vec_front xs = (case xs of [] \<Rightarrow> Inl (OutOfRange 0) | x # _ \<Rightarrow> Inr x)"

definition vec_back :: "'a list \<Rightarrow> error + 'a" where
  "vec_back xs = (if xs = [] then Inl (OutOfRange 0) else Inr (last xs))"

text \<open>
  \<open>Interpolate(t)\<close>. There is no test for an empty trajectory in the source: the first
  comparison, \<open>iter == times_.begin()\<close>, holds there and \<open>states_.front()\<close> is read.
\<close>

definition Interpolate :: "('s::real_vector) trajectory \<Rightarrow> real \<Rightarrow> error + 's" where
  "Interpolate traj t =
     (let iter = lower_bound (traj_times traj) t in
      if iter = 0 then vec_front (traj_states traj)
      else if iter = length (traj_times traj) then vec_back (traj_states traj)
      else
        (let hi = iter; lo = hi - 1;
             frac = (t - traj_times traj ! lo) / (traj_times traj ! hi - traj_times traj ! lo)
         in if hi < length (traj_states traj)
            then Inr ((1 - frac) *\<^sub>R (traj_states traj ! lo) + frac *\<^sub>R (traj_states traj ! hi))
            else Inl (OutOfRange hi)))"

text \<open>The two invariants the data model asks of a trajectory.\<close>

definition traj_invariant :: "'s trajectory \<Rightarrow> bool" where
  "traj_invariant traj \<longleftrightarrow>
     length (traj_states traj) = length (traj_times traj) \<and> sorted (traj_times traj)"


text \<open>
  The value of a double operation is the double nearest to the exact result, ties going
  to the even significand (IEEE 754 binary64, round to nearest even). A double has 53
  significant bits: for \<open>2\<^sup>e \<le> |x| < 2\<^sup>e\<^sup>+\<^sup>1\<close> the doubles around \<open>x\<close> are the multiples of
  \<open>2\<^sup>e\<^sup>-\<^sup>5\<^sup>2\<close>, and below \<open>2\<^sup>-\<^sup>1\<^sup>0\<^sup>2\<^sup>2\<close> (the subnormal range) the multiples of \<open>2\<^sup>-\<^sup>1\<^sup>0\<^sup>7\<^sup>4\<close>.
\<close>

definition round_half_even :: "real \<Rightarrow> int" where
  "round_half_even x =
     (let f = \<lfloor>x\<rfloor>; r = x - of_int f in
      if r < 1 / 2 then f else if 1 / 2 < r then f + 1 else if even f then f else f + 1)"

definition pow2 :: "int \<Rightarrow> real" where
  "pow2 e = (if 0 \<le> e then 2 ^ nat e else 1 / 2 ^ nat (- e))"

text \<open>The exponent \<open>e\<close> of a non-zero \<open>x\<close>, with \<open>2\<^sup>e \<le> |x| < 2\<^sup>e\<^sup>+\<^sup>1\<close>.\<close>

definition binary_exponent :: "real \<Rightarrow> int" where
  "binary_exponent x =
     (if 1 \<le> \<bar>x\<bar> then bitlen \<lfloor>\<bar>x\<bar>\<rfloor> - 1
      else
        (let b = bitlen \<lfloor>1 / \<bar>x\<bar>\<rfloor> in
         if \<bar>x\<bar> * pow2 (b - 1) = 1 then - (b - 1) else - b))"

definition to_double :: "real \<Rightarrow> real" where
  "to_double x =
     (if x = 0 then 0
      else
        (let e = max (binary_exponent x) (- 1022); ulp = pow2 (e - 52)
         in of_int (round_half_even (x / ulp)) * ulp))"

definition double_add :: "real \<Rightarrow> real \<Rightarrow> real" where
  "double_add x y = to_double (x + y)"

definition double_sub :: "real \<Rightarrow> real \<Rightarrow> real" where
  "double_sub x y = to_double (x - y)"


text \<open>
  Modelled from the spec: the members of \<open>Trajectory\<close> that the planner calls and that
  trajectory.h under src/ does not define (\<open>Size\<close>, \<open>Duration\<close>, \<open>ResetFirstTime\<close>, the
  default constructor and the constructor from a list of trajectories, the spec's
  \<open>Concatenate\<close>). \<open>Duration = t[n-1] - t[0]\<close>; \<open>ResetFirstTime(t0)\<close> translates all
  timestamps by \<open>t0 - t[0]\<close>; \<open>Concatenate\<close> keeps the first trajectory's times and
  re-aligns the start of each later one to the last timestamp so far, dropping no
  sample. The spec does not say what \<open>Duration\<close> and the re-alignment are on an empty
  trajectory: the duration is 0 and nothing is shifted here. The planner calls them on
  trajectories of positive size only. The difference and the shifted times are doubles:
  each is rounded.
\<close>

definition Size :: "'s trajectory \<Rightarrow> nat" where
  "Size traj = length (traj_states traj)"

definition Duration :: "'s trajectory \<Rightarrow> real" where
  "Duration traj =
     (if traj_times traj = [] then 0
      else double_sub (last (traj_times traj)) (hd (traj_times traj)))"

definition ResetFirstTime :: "'s trajectory \<Rightarrow> real \<Rightarrow> 's trajectory" where
  "ResetFirstTime traj t0 =
     (case traj_times traj of
        [] \<Rightarrow> traj
      | t # _ \<Rightarrow>
          traj\<lparr>traj_times := map (\<lambda>x. double_add x (double_sub t0 t)) (traj_times traj)\<rparr>)"

definition empty_trajectory :: "'s trajectory" where
  "empty_trajectory = \<lparr>traj_states = [], traj_times = []\<rparr>"

definition append_trajectory :: "'s trajectory \<Rightarrow> 's trajectory \<Rightarrow> 's trajectory" where
  "append_trajectory acc traj =
     (let traj' = (if traj_times acc = [] then traj
                   else ResetFirstTime traj (last (traj_times acc)))
      in \<lparr>traj_states = traj_states acc @ traj_states traj',
          traj_times = traj_times acc @ traj_times traj'\<rparr>)"

definition Concatenate :: "'s trajectory list \<Rightarrow> 's trajectory" where
  "Concatenate trajs =
     (case trajs of [] \<Rightarrow> empty_trajectory | traj # rest \<Rightarrow> foldl append_trajectory traj rest)"


section \<open>The planner (fastrack/planning/graph_dynamic_planner.h)\<close>

text \<open>
  A \<open>Node\<close> is reached through \<open>std::shared_ptr\<close>s, held by \<open>best_parent\<close>, by \<open>children\<close>
  and by the searchable sets. The model keeps all nodes in one store, a list, and a
  pointer is an index into it; \<open>nullptr\<close> is \<open>None\<close>. \<open>Node::Create()\<close> appends to the
  store, so the new node's pointer is the store's length before the call.
\<close>

record 's Node =
  state :: 's
  time :: real
  cost_to_come :: real
  is_viable :: bool
  best_parent :: "nat option"
  children :: "nat list"
  trajs_to_children :: "'s trajectory list"

type_synonym 's heap = "'s Node list"

text \<open>
  What \<open>GraphDynamicPlanner\<close> takes from outside the files under src/: the parameters
  \<open>num_neighbors_\<close> and \<open>search_radius_\<close>, the pure virtual \<open>SubPlan\<close>, and the constants
  \<open>constants::kEpsilon\<close> and \<open>constants::kInfinity\<close> of fastrack/utils/types.h. The clock
  and \<open>S::Sample()\<close> are replaced by the list of the samples drawn in the iterations that
  start before the deadline: the loop runs once per element, and the deadline has passed
  when the list is used up.
\<close>

record 's planner =
  num_neighbors :: nat
  search_radius :: real
  SubPlan :: "'s \<Rightarrow> 's \<Rightarrow> real \<Rightarrow> 's trajectory"
  kEpsilon :: real
  kInfinity :: real

text \<open>The default cost functional: \<open>return traj.Duration();\<close>\<close>

definition Cost :: "'s trajectory \<Rightarrow> real" where
  "Cost traj = Duration traj"

text \<open>
  Modelled from the spec: \<open>SearchableSet\<close> (fastrack/utils/searchable_set.h is not under
  src/). A set is built from its \<open>InitialNode()\<close> and keeps its nodes in insertion order;
  \<open>KnnSearch(s, k)\<close> returns the \<open>k\<close> nearest nodes by distance of the state vectors,
  ties broken by insertion order; \<open>RadiusSearch(s, r)\<close> returns all nodes within distance
  \<open>r\<close>.
\<close>

record searchable_set =
  InitialNode :: nat
  registry :: "nat list"

definition KnnSearch ::
  "('s::real_normed_vector) heap \<Rightarrow> searchable_set \<Rightarrow> 's \<Rightarrow> nat \<Rightarrow> nat list" where
  "KnnSearch h sset s k = take k (sort_key (\<lambda>n. dist (state (h ! n)) s) (registry sset))"

definition RadiusSearch ::
  "('s::real_normed_vector) heap \<Rightarrow> searchable_set \<Rightarrow> 's \<Rightarrow> real \<Rightarrow> nat list" where
  "RadiusSearch h sset s r = filter (\<lambda>n. dist (state (h ! n)) s \<le> r) (registry sset)"

text \<open>
  \<open>Node::operator==\<close> compares the states with Eigen's \<open>isApprox\<close> at precision \<open>1e-8\<close>:
  \<open>a.isApprox(b, p)\<close> holds when \<open>|a - b|\<^sup>2 \<le> p\<^sup>2 * min(|a|\<^sup>2, |b|\<^sup>2)\<close>.
\<close>

definition isApprox :: "('s::real_normed_vector) \<Rightarrow> 's \<Rightarrow> real \<Rightarrow> bool" where
  "isApprox a b prec \<longleftrightarrow> (norm (a - b))\<^sup>2 \<le> prec\<^sup>2 * min ((norm a)\<^sup>2) ((norm b)\<^sup>2)"

definition node_eq :: "('s::real_normed_vector) Node \<Rightarrow> 's Node \<Rightarrow> bool" where
  "node_eq a b \<longleftrightarrow> isApprox (state a) (state b) (1 / 10 ^ 8)"

text \<open>
  Steps (2) and (3) of the loop body: the neighbours are tried in order; one closer to
  the sample than \<open>kEpsilon\<close> is skipped; the first whose sub-plan is not empty becomes
  the parent of a new node. \<open>None\<close> is the source's \<open>sample_node == nullptr\<close>.
\<close>

fun attach_loop ::
  "('s::real_normed_vector) planner \<Rightarrow> 's heap \<Rightarrow> 's \<Rightarrow> nat list \<Rightarrow> ('s heap \<times> nat) option" where
  "attach_loop P h sample [] = None"
| "attach_loop P h sample (neighbor # rest) =
     (if norm (state (h ! neighbor) - sample) < kEpsilon P then attach_loop P h sample rest
      else
        (let sub_plan = SubPlan P (state (h ! neighbor)) sample (time (h ! neighbor)) in
         if Size sub_plan > 0 then
           (let parent = neighbor;
                sample_node = length h;
                h1 = h @ [\<lparr>state = sample,
                           time = double_add (time (h ! parent)) (Duration sub_plan),
                           cost_to_come = double_add (cost_to_come (h ! parent)) (Cost sub_plan),
                           is_viable = False,
                           best_parent = Some parent,
                           children = [],
                           trajs_to_children = []\<rparr>];
                h2 = h1[parent := (h1 ! parent)
                          \<lparr>children := children (h1 ! parent) @ [sample_node],
                           trajs_to_children := trajs_to_children (h1 ! parent) @ [sub_plan]\<rparr>]
            in Some (h2, sample_node))
         else attach_loop P h sample rest))"

text \<open>
  Step (4): the goals in the search radius are tried in order; one that is not viable is
  skipped; the first whose sub-plan from the sample is not empty becomes \<open>child\<close>, and
  is appended to the children of the sample node.
\<close>

fun connect_loop ::
  "('s::real_normed_vector) planner \<Rightarrow> 's heap \<Rightarrow> 's \<Rightarrow> nat \<Rightarrow> nat list \<Rightarrow> 's heap \<times> nat option" where
  "connect_loop P h sample sample_node [] = (h, None)"
| "connect_loop P h sample sample_node (goal # rest) =
     (if \<not> is_viable (h ! goal) then connect_loop P h sample sample_node rest
      else
        (let sub_plan = SubPlan P sample (state (h ! goal)) (time (h ! sample_node)) in
         if Size sub_plan > 0 then
           (h[sample_node := (h ! sample_node)
                \<lparr>children := children (h ! sample_node) @ [goal],
                 trajs_to_children := trajs_to_children (h ! sample_node) @ [sub_plan]\<rparr>],
            Some goal)
         else connect_loop P h sample sample_node rest))"

text \<open>
  \<open>p->cost_to_come\<close> for a \<open>shared_ptr\<close> \<open>p\<close>: a null \<open>p\<close> cannot be dereferenced.
\<close>

definition deref_cost_to_come :: "'s heap \<Rightarrow> nat option \<Rightarrow> error + real" where
  "deref_cost_to_come h p = (case p of None \<Rightarrow> Inl NullDeref | Some n \<Rightarrow> Inr (cost_to_come (h ! n)))"

text \<open>
  The condition of \<open>UpdateDescendants\<close> as the source has it,
  \<^verbatim>\<open>child->best_parent != nullptr ||
  child->best_parent->cost_to_come > current_node->cost_to_come\<close>:
  the right operand is evaluated only when the left one is false, that is when
  \<open>best_parent\<close> is null, and then dereferences it.
\<close>

definition reattach_condition :: "'s heap \<Rightarrow> nat \<Rightarrow> nat \<Rightarrow> error + bool" where
  "reattach_condition h child current_node =
     (if best_parent (h ! child) \<noteq> None then Inr True
      else (case deref_cost_to_come h (best_parent (h ! child)) of
              Inl e \<Rightarrow> Inl e
            | Inr c \<Rightarrow> Inr (c > cost_to_come (h ! current_node))))"

text \<open>
  The body of the \<open>for\<close> loop of \<open>UpdateDescendants\<close> at index \<open>ii\<close> (the push onto the
  queue apart): the trajectory to the child is re-timed, then the child is reattached
  when the condition holds.
\<close>

definition update_child :: "'s heap \<Rightarrow> nat \<Rightarrow> nat \<Rightarrow> error + 's heap" where
  "update_child h current_node ii =
     (let child = children (h ! current_node) ! ii in
      if ii < length (trajs_to_children (h ! current_node)) then
        (let h1 = h[current_node := (h ! current_node)
                      \<lparr>trajs_to_children := (trajs_to_children (h ! current_node))
                         [ii := ResetFirstTime (trajs_to_children (h ! current_node) ! ii)
                                  (time (h ! current_node))]\<rparr>]
         in case reattach_condition h1 child current_node of
              Inl e \<Rightarrow> Inl e
            | Inr reattach \<Rightarrow>
                if reattach then
                  Inr (h1[child := (h1 ! child)
                            \<lparr>best_parent := Some current_node,
                             time := double_add (time (h1 ! current_node))
                                       (Duration (trajs_to_children (h1 ! current_node) ! ii)),
                             cost_to_come := double_add (cost_to_come (h1 ! current_node))
                                       (Cost (trajs_to_children (h1 ! current_node) ! ii))\<rparr>])
                else Inr h1)
      else Inl (OutOfRange ii))"

fun update_children :: "'s heap \<Rightarrow> nat \<Rightarrow> nat list \<Rightarrow> error + 's heap" where
  "update_children h current_node [] = Inr h"
| "update_children h current_node (ii # iis) =
     (case update_child h current_node ii of
        Inl e \<Rightarrow> Inl e
      | Inr h' \<Rightarrow> update_children h' current_node iis)"

text \<open>
  The breadth-first loop of \<open>UpdateDescendants\<close>. Every child is pushed onto the queue
  and there is no set of visited nodes, so the loop need not end: the result \<open>None\<close> is
  a run that does not return.
\<close>

partial_function (option) UpdateDescendants_loop ::
  "'s heap \<Rightarrow> nat list \<Rightarrow> nat \<Rightarrow> (error + 's heap) option" where
  "UpdateDescendants_loop h queue start =
     (case queue of
        [] \<Rightarrow> Some (Inr h)
      | current_node # rest \<Rightarrow>
          if current_node = start then UpdateDescendants_loop h rest start
          else
            (case update_children h current_node [0..<length (children (h ! current_node))] of
               Inl e \<Rightarrow> Some (Inl e)
             | Inr h' \<Rightarrow>
                 UpdateDescendants_loop h' (rest @ children (h ! current_node)) start))"

declare UpdateDescendants_loop.simps [code]

definition UpdateDescendants :: "'s heap \<Rightarrow> nat \<Rightarrow> nat \<Rightarrow> (error + 's heap) option" where
  "UpdateDescendants h node start = UpdateDescendants_loop h [node] start"


text \<open>
  The walk that marks the ancestors viable:
  \<^verbatim>\<open>while (parent != nullptr && !parent->is_viable) {
    parent->is_viable = true; parent = parent->best_parent; }\<close>
  Each round turns a node that was not viable into a viable one, so the walk ends. A
  shared pointer always points to a node of the store; the test \<open>p < length h\<close> only
  makes the recursion total.
\<close>

lemma viable_count_decreases:
  assumes "p < length h" and "\<not> is_viable (h ! p)"
  shows "length (filter (\<lambda>n. \<not> is_viable n) (h[p := (h ! p)\<lparr>is_viable := True\<rparr>]))
         < length (filter (\<lambda>n. \<not> is_viable n) h)"
proof -
  let ?h' = "h[p := (h ! p)\<lparr>is_viable := True\<rparr>]"
  have sub: "{i. i < length ?h' \<and> \<not> is_viable (?h' ! i)}
               \<subseteq> {i. i < length h \<and> \<not> is_viable (h ! i)} - {p}"
    using assms(1) by (auto simp: nth_list_update split: if_splits)
  have "card ({i. i < length h \<and> \<not> is_viable (h ! i)} - {p})
          < card {i. i < length h \<and> \<not> is_viable (h ! i)}"
    using assms by (intro card_Diff1_less) auto
  moreover have "card {i. i < length ?h' \<and> \<not> is_viable (?h' ! i)}
          \<le> card ({i. i < length h \<and> \<not> is_viable (h ! i)} - {p})"
    using sub by (intro card_mono) auto
  ultimately show ?thesis
    by (simp add: length_filter_conv_card)
qed

function mark_viable :: "'s heap \<Rightarrow> nat option \<Rightarrow> 's heap" where
  "mark_viable h parent =
     (case parent of
        None \<Rightarrow> h
      | Some p \<Rightarrow>
          if p < length h \<and> \<not> is_viable (h ! p)
          then mark_viable (h[p := (h ! p)\<lparr>is_viable := True\<rparr>]) (best_parent (h ! p))
          else h)"
  by pat_completeness auto
termination
  by (relation "measure (\<lambda>(h, parent). length (filter (\<lambda>n. \<not> is_viable n) h))")
    (auto intro: viable_count_decreases)

declare mark_viable.simps [simp del]

text \<open>
  The search of \<open>ExtractTrajectory\<close> for \<open>node\<close> among the children of its parent, by
  \<open>Node::operator==\<close>: the trajectory at the first index whose child compares equal, or
  \<open>None\<close> when no child does (the source logs an inconsistency and adds nothing).
\<close>

fun find_child ::
  "('s::real_normed_vector) heap \<Rightarrow> nat \<Rightarrow> nat \<Rightarrow> nat list \<Rightarrow> nat option" where
  "find_child h node ii [] = None"
| "find_child h node ii (c # cs) =
     (if node_eq (h ! c) (h ! node) then Some ii else find_child h node (ii + 1) cs)"

definition traj_to_child ::
  "('s::real_normed_vector) heap \<Rightarrow> nat \<Rightarrow> nat \<Rightarrow> error + 's trajectory option" where
  "traj_to_child h parent node =
     (case find_child h node 0 (children (h ! parent)) of
        None \<Rightarrow> Inr None
      | Some ii \<Rightarrow>
          if ii < length (trajs_to_children (h ! parent))
          then Inr (Some (trajs_to_children (h ! parent) ! ii))
          else Inl (OutOfRange ii))"

text \<open>
  The loop of \<open>ExtractTrajectory\<close>, with the list of trajectories collected so far. It
  follows \<open>best_parent\<close> until it meets a node equal to \<open>start\<close> with at least one
  trajectory collected, or a null parent; on a cycle of parents without such a node it
  does not return (\<open>None\<close>).
\<close>

partial_function (option) ExtractTrajectory_loop ::
  "('s::real_normed_vector) heap \<Rightarrow> nat \<Rightarrow> nat \<Rightarrow> 's trajectory list
   \<Rightarrow> (error + 's trajectory list) option" where
  "ExtractTrajectory_loop h start node trajs =
     (if \<not> node_eq (h ! node) (h ! start) \<or> (node_eq (h ! node) (h ! start) \<and> length trajs = 0)
      then
        (case best_parent (h ! node) of
           None \<Rightarrow> Some (Inr trajs)
         | Some parent \<Rightarrow>
             (case traj_to_child h parent node of
                Inl e \<Rightarrow> Some (Inl e)
              | Inr None \<Rightarrow> ExtractTrajectory_loop h start parent trajs
              | Inr (Some traj) \<Rightarrow> ExtractTrajectory_loop h start parent (traj # trajs)))
      else Some (Inr trajs))"

declare ExtractTrajectory_loop.simps [code]

definition ExtractTrajectory ::
  "('s::real_normed_vector) heap \<Rightarrow> nat \<Rightarrow> nat \<Rightarrow> (error + 's trajectory) option" where
  "ExtractTrajectory h start goal =
     (case ExtractTrajectory_loop h start goal [] of
        None \<Rightarrow> None
      | Some (Inl e) \<Rightarrow> Some (Inl e)
      | Some (Inr trajs) \<Rightarrow> Some (Inr (Concatenate trajs)))"

text \<open>
  The branch \<open>child != nullptr\<close> up to the marking of the ancestors: the goal gets the
  sample node as its best parent when it has none or a more expensive one, and then
  \<open>UpdateDescendants\<close> runs from the sample node.
\<close>

definition rewire ::
  "'s heap \<Rightarrow> searchable_set \<Rightarrow> searchable_set \<Rightarrow> bool \<Rightarrow> nat \<Rightarrow> nat
   \<Rightarrow> (error + 's heap) option" where
  "rewire h graph goals outbound sample_node child =
     (if (case best_parent (h ! child) of
            None \<Rightarrow> True
          | Some bp \<Rightarrow> cost_to_come (h ! bp) > cost_to_come (h ! sample_node))
      then
        (let h1 = h[child := (h ! child)\<lparr>best_parent := Some sample_node\<rparr>];
             start_node = (if outbound then InitialNode graph else InitialNode goals)
         in UpdateDescendants h1 sample_node start_node)
      else Some (Inr h))"

text \<open>
  One round of the \<open>while\<close> loop of \<open>RecursivePlan\<close>. \<open>Continue\<close> is the end of the loop
  body (or its \<open>continue\<close>) with the store as it is then; \<open>Return\<close> is a \<open>return\<close> inside
  the loop. In the branch \<open>child == nullptr\<close> the source only prints a message: its
  recursive call is commented out.
\<close>

datatype 's step = Continue "'s heap" | Return "'s heap" "'s trajectory"

definition iteration ::
  "('s::real_normed_vector) planner \<Rightarrow> 's heap \<Rightarrow> searchable_set \<Rightarrow> searchable_set \<Rightarrow> bool
   \<Rightarrow> 's \<Rightarrow> (error + 's step) option" where
  "iteration P h graph goals outbound sample =
     (let neighbors = KnnSearch h graph sample (num_neighbors P) in
      case attach_loop P h sample neighbors of
        None \<Rightarrow> Some (Inr (Continue h))
      | Some (h1, sample_node) \<Rightarrow>
          (let neighboring_goals = RadiusSearch h1 goals sample (search_radius P) in
           case connect_loop P h1 sample sample_node neighboring_goals of
             (h2, None) \<Rightarrow> Some (Inr (Continue h2))
           | (h2, Some child) \<Rightarrow>
               (case rewire h2 graph goals outbound sample_node child of
                  None \<Rightarrow> None
                | Some (Inl e) \<Rightarrow> Some (Inl e)
                | Some (Inr h3) \<Rightarrow>
                    (let h4 = mark_viable h3 (Some sample_node) in
                     if outbound then
                       (case ExtractTrajectory h4 (InitialNode graph) (InitialNode goals) of
                          None \<Rightarrow> None
                        | Some (Inl e) \<Rightarrow> Some (Inl e)
                        | Some (Inr traj) \<Rightarrow> Some (Inr (Return h4 traj)))
                     else Some (Inr (Return h4 empty_trajectory))))))"

text \<open>
  The \<open>while\<close> loop over the samples drawn before the deadline. \<open>Continue h\<close> as its
  result is the exit on the deadline with the store \<open>h\<close>.
\<close>

fun main_loop ::
  "('s::real_normed_vector) planner \<Rightarrow> 's heap \<Rightarrow> searchable_set \<Rightarrow> searchable_set \<Rightarrow> bool
   \<Rightarrow> 's list \<Rightarrow> (error + 's step) option" where
  "main_loop P h graph goals outbound [] = Some (Inr (Continue h))"
| "main_loop P h graph goals outbound (sample # rest) =
     (case iteration P h graph goals outbound sample of
        Some (Inr (Continue h')) \<Rightarrow> main_loop P h' graph goals outbound rest
      | r \<Rightarrow> r)"



text \<open>
  \<open>Plan\<close>: the store holds the start node at index 0 and the goal node at index 1; the
  graph is the set built from the start node, the goal set the one built from the goal
  node. The sleep until the end of the budget changes no value.
\<close>

definition start_node :: "'s \<Rightarrow> real \<Rightarrow> 's Node" where
  "start_node start start_time =
     \<lparr>state = start, time = start_time, cost_to_come = 0, is_viable = True,
      best_parent = None, children = [], trajs_to_children = []\<rparr>"

definition goal_node :: "'s planner \<Rightarrow> 's \<Rightarrow> 's Node" where
  "goal_node P goal =
     \<lparr>state = goal, time = kInfinity P, cost_to_come = kInfinity P, is_viable = True,
      best_parent = None, children = [], trajs_to_children = []\<rparr>"

definition initial_heap :: "'s planner \<Rightarrow> 's \<Rightarrow> 's \<Rightarrow> real \<Rightarrow> 's heap" where
  "initial_heap P start goal start_time = [start_node start start_time, goal_node P goal]"

definition graph_set :: searchable_set where
  "graph_set = \<lparr>InitialNode = 0, registry = [0]\<rparr>"

definition goal_set :: searchable_set where
  "goal_set = \<lparr>InitialNode = 1, registry = [1]\<rparr>"


text \<open>
  The store with which the loop of \<open>Plan\<close>'s call of \<open>RecursivePlan\<close> ends on the given
  samples, whether by a \<open>return\<close> inside the loop or on the deadline. A store between
  two rounds of the loop is the one at the deadline for the samples drawn so far.
\<close>

fun heap_of :: "'s step \<Rightarrow> 's heap" where
  "heap_of (Continue h) = h"
| "heap_of (Return h traj) = h"

definition plan_loop ::
  "('s::real_normed_vector) planner \<Rightarrow> 's \<Rightarrow> 's \<Rightarrow> real \<Rightarrow> 's list \<Rightarrow> (error + 's step) option" where
  "plan_loop P start goal start_time samples =
     main_loop P (initial_heap P start goal start_time) graph_set goal_set True samples"


section \<open>Auxiliary definitions\<close>

text \<open>
  An instance for the examples: states are real numbers, and the sub-planner joins two
  states by a straight line at unit speed.
\<close>

definition straight_line :: "real \<Rightarrow> real \<Rightarrow> real \<Rightarrow> real trajectory" where
  "straight_line a b t0 = \<lparr>traj_states = [a, b], traj_times = [t0, t0 + \<bar>b - a\<bar>]\<rparr>"

definition example_planner :: "real planner" where
  "example_planner =
     \<lparr>num_neighbors = 1, search_radius = 3, SubPlan = straight_line,
      kEpsilon = 1 / 1000, kInfinity = 1000000\<rparr>"

text \<open>
  A second instance: every sub-plan takes one unit of time on its own clock, from time
  0 to time 1, whatever the start time passed to it.
\<close>

definition unit_plan :: "real \<Rightarrow> real \<Rightarrow> real \<Rightarrow> real trajectory" where
  "unit_plan a b t0 = \<lparr>traj_states = [a, b], traj_times = [0, 1]\<rparr>"

definition unit_planner :: "real planner" where
  "unit_planner =
     \<lparr>num_neighbors = 1, search_radius = 3, SubPlan = unit_plan,
      kEpsilon = 1 / 1000, kInfinity = 1000000\<rparr>"

text \<open>
  The node that step (3) creates for a sample under a parent, and the store after it.
\<close>

definition sample_node_of :: "'s heap \<Rightarrow> nat \<Rightarrow> 's \<Rightarrow> 's trajectory \<Rightarrow> 's Node" where
  "sample_node_of h parent sample sub_plan =
     \<lparr>state = sample,
      time = double_add (time (h ! parent)) (Duration sub_plan),
      cost_to_come = double_add (cost_to_come (h ! parent)) (Cost sub_plan),
      is_viable = False,
      best_parent = Some parent,
      children = [],
      trajs_to_children = []\<rparr>"

definition attached :: "'s heap \<Rightarrow> nat \<Rightarrow> 's \<Rightarrow> 's trajectory \<Rightarrow> 's heap" where
  "attached h parent sample sub_plan =
     (h @ [sample_node_of h parent sample sub_plan])
       [parent := ((h @ [sample_node_of h parent sample sub_plan]) ! parent)
          \<lparr>children := children ((h @ [sample_node_of h parent sample sub_plan]) ! parent) @ [length h],
           trajs_to_children :=
             trajs_to_children ((h @ [sample_node_of h parent sample sub_plan]) ! parent) @ [sub_plan]\<rparr>]"






text \<open>
  Two shapes of the store in a run of \<open>Plan\<close>, with the start node at index 0 and the
  goal node at index 1. \<open>open_inv\<close> is the store between two rounds of the loop: every
  node from index 2 on is a sample node attached to the start node and has no children,
  and the goal node has no parent. \<open>plan_inv\<close> is what is left of it once a goal has been
  connected: one sample node may have the goal node as its child and be its best parent.
\<close>

definition open_inv :: "'s heap \<Rightarrow> real \<Rightarrow> bool" where
  "open_inv h t0 \<longleftrightarrow>
     2 \<le> length h \<and>
     best_parent (h ! 0) = None \<and> is_viable (h ! 0) \<and> time (h ! 0) = t0 \<and>
     cost_to_come (h ! 0) = 0 \<and>
     length (trajs_to_children (h ! 0)) = length (children (h ! 0)) \<and>
     (\<forall>c \<in> set (children (h ! 0)). 2 \<le> c \<and> c < length h) \<and>
     best_parent (h ! 1) = None \<and> children (h ! 1) = [] \<and>
     (\<forall>n. 2 \<le> n \<and> n < length h \<longrightarrow>
        best_parent (h ! n) = Some 0 \<and> children (h ! n) = [] \<and>
        trajs_to_children (h ! n) = [] \<and>
        (\<exists>d. time (h ! n) = double_add t0 d \<and> cost_to_come (h ! n) = double_add 0 d))"

definition plan_inv :: "'s heap \<Rightarrow> real \<Rightarrow> bool" where
  "plan_inv h t0 \<longleftrightarrow>
     2 \<le> length h \<and>
     best_parent (h ! 0) = None \<and>
     (\<forall>c \<in> set (children (h ! 0)). 2 \<le> c \<and> c < length h) \<and>
     children (h ! 1) = [] \<and>
     (best_parent (h ! 1) = None
      \<or> (\<exists>n. 2 \<le> n \<and> n < length h \<and> best_parent (h ! 1) = Some n)) \<and>
     (\<forall>n. 2 \<le> n \<and> n < length h \<longrightarrow>
        best_parent (h ! n) = Some 0 \<and> set (children (h ! n)) \<subseteq> {1} \<and>
        (\<exists>d. time (h ! n) = double_add t0 d \<and> cost_to_come (h ! n) = double_add 0 d))"

text \<open>
  \<open>ancestor h k n\<close> is the node reached from \<open>n\<close> by \<open>k\<close> steps along \<open>best_parent\<close>,
  \<open>None\<close> when the chain ends at a null pointer before that.
\<close>

fun ancestor :: "'s heap \<Rightarrow> nat \<Rightarrow> nat \<Rightarrow> nat option" where
  "ancestor h 0 n = Some n"
| "ancestor h (Suc k) n =
     (case best_parent (h ! n) of None \<Rightarrow> None | Some p \<Rightarrow> ancestor h k p)"


section \<open>Properties of the rounding\<close>

text \<open>
  \<open>binary_exponent\<close> is the exponent it is meant to be: a non-zero \<open>x\<close> lies between
  \<open>2\<^sup>e\<close> and \<open>2\<^sup>e\<^sup>+\<^sup>1\<close> for \<open>e = binary_exponent x\<close>.
\<close>

lemma pow2_nonneg_exp: "0 \<le> e \<Longrightarrow> pow2 e = 2 ^ nat e"
  by (simp add: pow2_def)

lemma pow2_Suc: "pow2 (e + 1) = 2 * pow2 e"
proof (cases "0 \<le> e")
  case True
  then show ?thesis by (simp add: pow2_def nat_add_distrib)
next
  case False
  then have e: "e \<le> - 1" by simp
  show ?thesis
  proof (cases "e = - 1")
    case True
    then show ?thesis by (simp add: pow2_def)
  next
    case False
    with e have "e + 1 < 0" by simp
    moreover from this have "nat (- e) = Suc (nat (- (e + 1)))" by simp
    ultimately show ?thesis by (simp add: pow2_def del: minus_add_distrib)
  qed
qed

lemma pow2_pos: "0 < pow2 e"
  by (simp add: pow2_def)

lemma exponent_of_large:
  assumes "1 \<le> y"
  shows "pow2 (bitlen \<lfloor>y\<rfloor> - 1) \<le> y \<and> y < pow2 (bitlen \<lfloor>y\<rfloor>)"
proof -
  from assms have m: "0 < \<lfloor>y\<rfloor>" by simp
  from bitlen_bounds [OF m]
  have lo: "2 ^ nat (bitlen \<lfloor>y\<rfloor> - 1) \<le> \<lfloor>y\<rfloor>" and hi: "\<lfloor>y\<rfloor> < 2 ^ nat (bitlen \<lfloor>y\<rfloor>)"
    by simp_all
  from m have b: "1 \<le> bitlen \<lfloor>y\<rfloor>" by (simp add: bitlen_alt_def)
  from lo have "real_of_int (2 ^ nat (bitlen \<lfloor>y\<rfloor> - 1)) \<le> real_of_int \<lfloor>y\<rfloor>"
    by (rule of_int_le_iff [THEN iffD2])
  also have "\<dots> \<le> y" by simp
  finally have 1: "pow2 (bitlen \<lfloor>y\<rfloor> - 1) \<le> y"
    using b by (simp add: pow2_def)
  from hi have "\<lfloor>y\<rfloor> + 1 \<le> 2 ^ nat (bitlen \<lfloor>y\<rfloor>)" by simp
  then have "real_of_int (\<lfloor>y\<rfloor> + 1) \<le> real_of_int (2 ^ nat (bitlen \<lfloor>y\<rfloor>))"
    by (rule of_int_le_iff [THEN iffD2])
  then have up: "real_of_int \<lfloor>y\<rfloor> + 1 \<le> 2 ^ nat (bitlen \<lfloor>y\<rfloor>)" by simp
  have "y < real_of_int \<lfloor>y\<rfloor> + 1" by linarith
  with up have "y < 2 ^ nat (bitlen \<lfloor>y\<rfloor>)" by linarith
  then have 2: "y < pow2 (bitlen \<lfloor>y\<rfloor>)"
    using b by (simp add: pow2_def)
  from 1 2 show ?thesis ..
qed

lemma binary_exponent_bounds:
  assumes "x \<noteq> 0"
  shows "pow2 (binary_exponent x) \<le> \<bar>x\<bar> \<and> \<bar>x\<bar> < pow2 (binary_exponent x + 1)"
proof (cases "1 \<le> \<bar>x\<bar>")
  case True
  with exponent_of_large [OF True] show ?thesis
    by (simp add: binary_exponent_def)
next
  case False
  define y where "y = 1 / \<bar>x\<bar>"
  define b where "b = bitlen \<lfloor>y\<rfloor>"
  from False assms have y1: "1 \<le> y" by (simp add: y_def)
  from assms have xy: "\<bar>x\<bar> = 1 / y" and ypos: "0 < y" by (simp_all add: y_def)
  from exponent_of_large [OF y1] have lo: "pow2 (b - 1) \<le> y" and hi: "y < pow2 b"
    by (simp_all add: b_def)
  have step: "pow2 b = 2 * pow2 (b - 1)" using pow2_Suc [of "b - 1"] by simp
  have inv: "pow2 (- e) = 1 / pow2 e" for e
    by (cases "e = 0") (auto simp: pow2_def)
  show ?thesis
  proof (cases "\<bar>x\<bar> * pow2 (b - 1) = 1")
    case True
    then have e: "binary_exponent x = - (b - 1)"
      using False by (simp add: binary_exponent_def Let_def b_def y_def)
    from True pow2_pos [of "b - 1"] have "\<bar>x\<bar> = 1 / pow2 (b - 1)"
      by (simp add: field_simps)
    then have eq: "\<bar>x\<bar> = pow2 (- (b - 1))" using inv [of "b - 1"] by simp
    have "pow2 (- (b - 1) + 1) = 2 * pow2 (- (b - 1))" by (rule pow2_Suc)
    with eq pow2_pos [of "- (b - 1)"] e show ?thesis by simp
  next
    case neq: False
    then have e: "binary_exponent x = - b"
      using False by (simp add: binary_exponent_def Let_def b_def y_def)
    from hi ypos pow2_pos [of b] have "1 / pow2 b < 1 / y"
      by (simp add: field_simps)
    then have 1: "pow2 (- b) \<le> \<bar>x\<bar>" by (simp add: inv xy)
    from neq ypos have "y \<noteq> pow2 (b - 1)"
      by (auto simp: xy)
    with lo have "pow2 (b - 1) < y" by simp
    with ypos pow2_pos [of "b - 1"] have "1 / y < 1 / pow2 (b - 1)"
      by (simp add: field_simps)
    then have "\<bar>x\<bar> < 1 / pow2 (b - 1)" by (simp add: xy)
    then have 2: "\<bar>x\<bar> < pow2 (- b + 1)"
      using inv [of "b - 1"] by simp
    from 1 2 e show ?thesis by simp
  qed
qed


section \<open>Properties of trajectories\<close>

lemma lower_bound_loop_sorted:
  assumes "sorted ts" and "first + len \<le> length ts"
    and "\<forall>i < first. ts ! i < t"
    and "\<forall>i. first + len \<le> i \<and> i < length ts \<longrightarrow> \<not> ts ! i < t"
  shows "lower_bound_loop ts t first len \<le> length ts
         \<and> (\<forall>i < lower_bound_loop ts t first len. ts ! i < t)
         \<and> (\<forall>i. lower_bound_loop ts t first len \<le> i \<and> i < length ts \<longrightarrow> \<not> ts ! i < t)"
  using assms
proof (induction ts t first len rule: lower_bound_loop.induct)
  case (1 ts t first len)
  show ?case
  proof (cases "len > 0")
    case False
    with "1.prems" show ?thesis
      by (subst (1 2 3) lower_bound_loop.simps) simp
  next
    case True
    define half where "half = len div 2"
    define middle where "middle = first + half"
    from True have half: "half < len" by (simp add: half_def)
    with "1.prems"(2) have mid: "middle < length ts" by (simp add: middle_def)
    show ?thesis
    proof (cases "ts ! middle < t")
      case less: True
      have below: "\<forall>i < middle + 1. ts ! i < t"
      proof (intro allI impI)
        fix i assume "i < middle + 1"
        then have "i \<le> middle" by simp
        with "1.prems"(1) mid have "ts ! i \<le> ts ! middle"
          by (simp add: sorted_iff_nth_mono)
        with less show "ts ! i < t" by simp
      qed
      have bound: "middle + 1 + (len - half - 1) \<le> length ts"
        using half "1.prems"(2) by (simp add: middle_def)
      have above: "\<forall>i. middle + 1 + (len - half - 1) \<le> i \<and> i < length ts \<longrightarrow> \<not> ts ! i < t"
        using half "1.prems"(4) by (simp add: middle_def)
      have step: "lower_bound_loop ts t first len
                    = lower_bound_loop ts t (middle + 1) (len - half - 1)"
        using True less
        by (subst lower_bound_loop.simps) (simp add: half_def middle_def Let_def)
      from "1.IH"(1) [OF True half_def middle_def less "1.prems"(1) bound below above]
      show ?thesis unfolding step .
    next
      case geq: False
      have bound: "first + half \<le> length ts"
        using half "1.prems"(2) by simp
      have above: "\<forall>i. first + half \<le> i \<and> i < length ts \<longrightarrow> \<not> ts ! i < t"
      proof (intro allI impI)
        fix i assume i: "first + half \<le> i \<and> i < length ts"
        with "1.prems"(1) have "ts ! middle \<le> ts ! i"
          by (simp add: sorted_iff_nth_mono middle_def)
        with geq show "\<not> ts ! i < t" by simp
      qed
      have step: "lower_bound_loop ts t first len = lower_bound_loop ts t first half"
        using True geq
        by (subst lower_bound_loop.simps) (simp add: half_def middle_def Let_def)
      from "1.IH"(2) [OF True half_def middle_def geq "1.prems"(1) bound "1.prems"(3) above]
      show ?thesis unfolding step .
    qed
  qed
qed

lemma lower_bound_first_occurrence:
  assumes "sorted ts" and "i < length ts" and "i = 0 \<or> ts ! (i - 1) < ts ! i"
  shows "lower_bound ts (ts ! i) = i"
proof -
  define r where "r = lower_bound ts (ts ! i)"
  have "r \<le> length ts \<and> (\<forall>j < r. ts ! j < ts ! i)
        \<and> (\<forall>j. r \<le> j \<and> j < length ts \<longrightarrow> \<not> ts ! j < ts ! i)"
    unfolding r_def lower_bound_def
    by (rule lower_bound_loop_sorted) (use assms(1) in simp_all)
  then have below: "\<forall>j < r. ts ! j < ts ! i"
    and above: "\<forall>j. r \<le> j \<and> j < length ts \<longrightarrow> \<not> ts ! j < ts ! i"
    by simp_all
  have "\<not> i < r"
    using below by auto
  moreover have "\<not> r < i"
  proof
    assume less: "r < i"
    with assms(3) have pos: "ts ! (i - 1) < ts ! i" by auto
    from less have "r \<le> i - 1" by simp
    with assms(1,2) have "ts ! r \<le> ts ! (i - 1)"
      by (simp add: sorted_iff_nth_mono)
    with pos have "ts ! r < ts ! i" by simp
    moreover from less assms(2) above have "\<not> ts ! r < ts ! i" by simp
    ultimately show False by simp
  qed
  ultimately show ?thesis unfolding r_def by simp
qed

text \<open>
  C3 (the constructor establishes equal lengths and non-decreasing times). The source's
  comment reads "Make sure times are sorted. Overwrite any inversions with the larger time
  as we move left to right in the list", but the loop writes \<open>times_[ii + 1]\<close>, the next
  time, into \<open>times_[ii]\<close>. On the times 5, 1, 3 the constructor returns the times 5, 3, 3,
  which are not sorted.
\<close>

theorem Trajectory_keeps_inversion:
  "Trajectory [0, 1, 2 :: real] [5, 1, 3] = Inr \<lparr>traj_states = [0, 1, 2], traj_times = [5, 3, 3]\<rparr>
   \<and> \<not> sorted [5, 3, 3 :: real]
   \<and> \<not> traj_invariant \<lparr>traj_states = [0, 1, 2 :: real], traj_times = [5, 3, 3]\<rparr>"
  by (simp add: Trajectory_def fix_inversions.simps traj_invariant_def)

text \<open>
  C4 (\<open>Interpolate\<close> on the empty trajectory fails with \<open>EMPTY_TRAJECTORY\<close>). The source
  has no such error and no test for emptiness: for every \<open>t\<close> the call reads
  \<open>states_.front()\<close> of an empty vector.
\<close>

theorem Interpolate_empty_reads_front:
  "Trajectory ([] :: real list) [] = Inr \<lparr>traj_states = [], traj_times = []\<rparr>
   \<and> Interpolate \<lparr>traj_states = ([] :: real list), traj_times = []\<rparr> t = Inl (OutOfRange 0)"
  by (simp add: Trajectory_def fix_inversions.simps Interpolate_def lower_bound_def
      lower_bound_loop.simps vec_front_def)

text \<open>
  C7 (for some times with an inversion at the last index, the repair reads
  \<open>times_[ii + 1]\<close> with \<open>ii + 1\<close> equal to the length of the list). The times 1, 0 are
  such an input: the index read is 2, the length of the list.
\<close>

theorem Trajectory_inversion_at_last_index_out_of_range:
  "\<exists>(ss :: real list) ts.
     length ss = length ts \<and> 2 \<le> length ts
     \<and> ts ! (length ts - 2) > ts ! (length ts - 1)
     \<and> Trajectory ss ts = Inl (OutOfRange (length ts))"
proof -
  have "Trajectory [0, 1 :: real] [1, 0] = Inl (OutOfRange 2)"
    by (simp add: Trajectory_def fix_inversions.simps)
  then show ?thesis
    by (intro exI [of _ "[0, 1]"] exI [of _ "[1, 0]"]) simp
qed

text \<open>
  C8 (\<open>Interpolate(t[i])\<close> is \<open>states[i]\<close> within \<open>1e-8\<close> for every index of a non-empty
  trajectory that satisfies the invariants). As stated it fails where two samples carry
  the same time: \<open>lower_bound\<close> finds the first of them. The states 0, 1 at the times 0, 0
  pass the constructor unchanged, and \<open>Interpolate(t[1])\<close> is \<open>states[0] = 0\<close>, at
  distance 1 from \<open>states[1]\<close>.
\<close>

theorem Interpolate_at_repeated_time_counterexample:
  "Trajectory [0, 1 :: real] [0, 0] = Inr \<lparr>traj_states = [0, 1], traj_times = [0, 0]\<rparr>
   \<and> traj_invariant \<lparr>traj_states = [0, 1 :: real], traj_times = [0, 0]\<rparr>
   \<and> Interpolate \<lparr>traj_states = [0, 1 :: real], traj_times = [0, 0]\<rparr> ([0, 0] ! 1) = Inr 0
   \<and> \<not> dist (0 :: real) ([0, 1] ! 1) \<le> 1 / 10 ^ 8"
  by (simp add: Trajectory_def fix_inversions.simps traj_invariant_def Interpolate_def
      lower_bound_def lower_bound_loop.simps vec_front_def)

text \<open>
  C8 as amended: for a trajectory that satisfies the invariants and an index \<open>i\<close> that is
  the first to carry its time (\<open>i = 0\<close> or \<open>t[i - 1] < t[i]\<close>; every index when the times
  are strictly increasing), \<open>Interpolate(t[i])\<close> returns \<open>states[i]\<close> itself, so the
  distance between the two is 0 and within \<open>1e-8\<close>.
\<close>

theorem Interpolate_at_sample_time:
  fixes traj :: "('s::real_normed_vector) trajectory"
  assumes "traj_invariant traj"
    and "i < length (traj_times traj)"
    and "i = 0 \<or> traj_times traj ! (i - 1) < traj_times traj ! i"
  shows "Interpolate traj (traj_times traj ! i) = Inr (traj_states traj ! i)
         \<and> (\<exists>s. Interpolate traj (traj_times traj ! i) = Inr s
                \<and> dist s (traj_states traj ! i) \<le> 1 / 10 ^ 8)"
proof -
  from assms(1) have len: "length (traj_states traj) = length (traj_times traj)"
    and srt: "sorted (traj_times traj)"
    by (simp_all add: traj_invariant_def)
  have lb: "lower_bound (traj_times traj) (traj_times traj ! i) = i"
    using srt assms(2,3) by (rule lower_bound_first_occurrence)
  have eq: "Interpolate traj (traj_times traj ! i) = Inr (traj_states traj ! i)"
  proof (cases "i = 0")
    case True
    with assms(2) len have "traj_states traj \<noteq> []" by auto
    then have "vec_front (traj_states traj) = Inr (traj_states traj ! 0)"
      by (cases "traj_states traj") (simp_all add: vec_front_def)
    with True lb show ?thesis
      by (simp add: Interpolate_def)
  next
    case False
    with assms(3) have "traj_times traj ! (i - 1) < traj_times traj ! i" by simp
    then have "(traj_times traj ! i - traj_times traj ! (i - 1))
                 / (traj_times traj ! i - traj_times traj ! (i - 1)) = 1"
      by simp
    with False lb assms(2) len show ?thesis
      by (simp add: Interpolate_def Let_def)
  qed
  then show ?thesis by simp
qed

theorem Interpolate_at_sample_time_witness:
  "traj_invariant \<lparr>traj_states = [10, 20, 30 :: real], traj_times = [0, 1, 2]\<rparr>
   \<and> (1 :: nat) < length [0, 1, 2 :: real]
   \<and> [0, 1, 2 :: real] ! (1 - 1) < [0, 1, 2] ! 1
   \<and> Interpolate \<lparr>traj_states = [10, 20, 30 :: real], traj_times = [0, 1, 2]\<rparr> 1 = Inr 20"
  using Interpolate_at_sample_time
    [of "\<lparr>traj_states = [10, 20, 30 :: real], traj_times = [0, 1, 2]\<rparr>" 1]
  by (simp add: traj_invariant_def)


section \<open>Properties of the planner\<close>

text \<open>
  C1 (a child is reattached exactly when its best parent is null or more expensive than
  the current node, and is left unchanged otherwise). The source tests
  \<open>child->best_parent != nullptr\<close> where the test before the call of
  \<open>UpdateDescendants\<close> in \<open>RecursivePlan\<close> has \<open>== nullptr\<close>. A child whose best parent
  (cost 1) is cheaper than the current node (cost 5) is reattached all the same, and a
  child without a best parent makes the condition dereference the null pointer.
\<close>

theorem update_child_reattaches_cheaper_parent:
  "update_child
     [\<lparr>state = 0 :: real, time = 5, cost_to_come = 5, is_viable = True, best_parent = None,
       children = [1], trajs_to_children = [\<lparr>traj_states = [0, 1], traj_times = [0, 1]\<rparr>]\<rparr>,
      \<lparr>state = 1, time = 2, cost_to_come = 2, is_viable = False, best_parent = Some 2,
       children = [], trajs_to_children = []\<rparr>,
      \<lparr>state = 3, time = 1, cost_to_come = 1, is_viable = True, best_parent = None,
       children = [1], trajs_to_children = [\<lparr>traj_states = [3, 1], traj_times = [1, 2]\<rparr>]\<rparr>]
     0 0
   = Inr
     [\<lparr>state = 0, time = 5, cost_to_come = 5, is_viable = True, best_parent = None,
       children = [1], trajs_to_children = [\<lparr>traj_states = [0, 1], traj_times = [5, 6]\<rparr>]\<rparr>,
      \<lparr>state = 1, time = 6, cost_to_come = 6, is_viable = False, best_parent = Some 0,
       children = [], trajs_to_children = []\<rparr>,
      \<lparr>state = 3, time = 1, cost_to_come = 1, is_viable = True, best_parent = None,
       children = [1], trajs_to_children = [\<lparr>traj_states = [3, 1], traj_times = [1, 2]\<rparr>]\<rparr>]
   \<and> update_child
     [\<lparr>state = 0 :: real, time = 5, cost_to_come = 5, is_viable = True, best_parent = None,
       children = [1], trajs_to_children = [\<lparr>traj_states = [0, 1], traj_times = [0, 1]\<rparr>]\<rparr>,
      \<lparr>state = 1, time = 2, cost_to_come = 2, is_viable = False, best_parent = None,
       children = [], trajs_to_children = []\<rparr>]
     0 0
   = Inl NullDeref"
  by code_simp

lemma attach_loop_Some:
  assumes "attach_loop P h sample nbs = Some (h1, sample_node)"
  shows "sample_node = length h \<and>
         (\<exists>parent \<in> set nbs.
            0 < Size (SubPlan P (state (h ! parent)) sample (time (h ! parent))) \<and>
            h1 = attached h parent sample (SubPlan P (state (h ! parent)) sample (time (h ! parent))))"
  using assms
  by (induction nbs) (auto simp: Let_def attached_def sample_node_of_def split: if_splits)

lemma attached_length: "length (attached h parent sample sub_plan) = Suc (length h)"
  by (simp add: attached_def)

lemma attached_new:
  "parent < length h \<Longrightarrow>
   attached h parent sample sub_plan ! length h = sample_node_of h parent sample sub_plan"
  by (simp add: attached_def nth_append)

lemma attached_new_viable: "\<not> is_viable (attached h parent sample sub_plan ! length h)"
  by (cases "parent = length h") (simp_all add: attached_def nth_append sample_node_of_def)

lemma attached_parent:
  "parent < length h \<Longrightarrow>
   attached h parent sample sub_plan ! parent =
     (h ! parent)\<lparr>children := children (h ! parent) @ [length h],
                 trajs_to_children := trajs_to_children (h ! parent) @ [sub_plan]\<rparr>"
  by (simp add: attached_def nth_append)

lemma attached_other:
  "n < length h \<Longrightarrow> n \<noteq> parent \<Longrightarrow> attached h parent sample sub_plan ! n = h ! n"
  by (simp add: attached_def nth_append)

lemma connect_loop_None:
  "snd (connect_loop P h sample sample_node gs) = None \<Longrightarrow>
   connect_loop P h sample sample_node gs = (h, None)"
  by (induction gs) (auto simp: Let_def split: if_splits)

lemma connect_loop_Some:
  assumes "connect_loop P h sample sample_node gs = (h2, Some child)"
  shows "child \<in> set gs \<and> is_viable (h ! child) \<and>
         0 < Size (SubPlan P sample (state (h ! child)) (time (h ! sample_node))) \<and>
         h2 = h[sample_node := (h ! sample_node)
                  \<lparr>children := children (h ! sample_node) @ [child],
                   trajs_to_children := trajs_to_children (h ! sample_node)
                      @ [SubPlan P sample (state (h ! child)) (time (h ! sample_node))]\<rparr>]"
  using assms
  by (induction gs) (auto simp: Let_def split: if_splits)

text \<open>
  What a round of the loop does when \<open>child\<close> is null, outbound or not: it ends there.
  The store is the one the attach step left, the sample node is in it and is not viable,
  and the loop goes on with the next sample.
\<close>

lemma iteration_without_child:
  assumes "attach_loop P h sample (KnnSearch h graph sample (num_neighbors P))
             = Some (h1, sample_node)"
    and "snd (connect_loop P h1 sample sample_node
                (RadiusSearch h1 goals sample (search_radius P))) = None"
  shows "iteration P h graph goals outbound sample = Some (Inr (Continue h1))
         \<and> \<not> is_viable (h1 ! sample_node)
         \<and> main_loop P h graph goals outbound (sample # rest)
             = main_loop P h1 graph goals outbound rest"
proof -
  from assms(2) have c: "connect_loop P h1 sample sample_node
      (RadiusSearch h1 goals sample (search_radius P)) = (h1, None)"
    by (rule connect_loop_None)
  with assms(1) have it: "iteration P h graph goals outbound sample = Some (Inr (Continue h1))"
    by (simp add: iteration_def)
  from attach_loop_Some [OF assms(1)] have "\<not> is_viable (h1 ! sample_node)"
    by (auto simp: attached_new_viable)
  with it show ?thesis by simp
qed

lemma iteration_without_child_example:
  "attach_loop example_planner (initial_heap example_planner 0 10 0) 1
     (KnnSearch (initial_heap example_planner 0 10 0) graph_set 1 (num_neighbors example_planner))
     = Some (attached (initial_heap example_planner 0 10 0) 0 1 (straight_line 0 1 0), 2)
   \<and> iteration example_planner (initial_heap example_planner 0 10 0) graph_set goal_set True 1
     = Some (Inr (Continue (attached (initial_heap example_planner 0 10 0) 0 1 (straight_line 0 1 0))))
   \<and> iteration example_planner (initial_heap example_planner 0 10 0) graph_set goal_set False 1
     = Some (Inr (Continue (attached (initial_heap example_planner 0 10 0) 0 1 (straight_line 0 1 0))))"
proof -
  let ?h = "initial_heap example_planner 0 10 0"
  let ?h1 = "attached ?h 0 1 (straight_line 0 1 0)"
  have a: "attach_loop example_planner ?h 1
     (KnnSearch ?h graph_set 1 (num_neighbors example_planner)) = Some (?h1, 2)"
    by code_simp
  have b: "snd (connect_loop example_planner ?h1 1 2
     (RadiusSearch ?h1 goal_set 1 (search_radius example_planner))) = None"
    by code_simp
  from iteration_without_child [OF a b, where outbound = True]
    iteration_without_child [OF a b, where outbound = False] a
  show ?thesis by simp
qed


text \<open>
  C2 (when no goal could be connected and the traversal is outbound, a recursive
  traversal starts whose graph is the single node \<open>sample_node\<close> and whose goal set is
  the current graph, and it marks \<open>sample_node\<close> viable). The source says so itself: the
  branch prints "Child was null, so we need a recursive call." under the comment
  "(5) If outbound, make a recursive call", and \<open>RecursivePlan\<close> is documented as the
  recursive version of \<open>Plan\<close> that plans outbound and return trajectories. But the call
  is commented out, so the code does not do it. With the samples 1 and 2, start 0 and
  goal 10 out of the search radius, the first round leaves \<open>child\<close> null. A traversal
  from the sample node would attach the second sample to it, reach the start (a
  sub-plan from 2 to 0 exists and 0 is within the radius) and mark both viable. The
  loop instead attaches the second sample to the start, and the first sample's node
  stays not viable.
\<close>

theorem null_child_round_makes_no_recursive_call:
  "plan_loop example_planner 0 10 0 [1, 2] = Some (Inr (Continue
     [\<lparr>state = 0, time = 0, cost_to_come = 0, is_viable = True, best_parent = None,
       children = [2, 3],
       trajs_to_children = [\<lparr>traj_states = [0, 1], traj_times = [0, 1]\<rparr>,
                            \<lparr>traj_states = [0, 2], traj_times = [0, 2]\<rparr>]\<rparr>,
      \<lparr>state = 10, time = 1000000, cost_to_come = 1000000, is_viable = True,
       best_parent = None, children = [], trajs_to_children = []\<rparr>,
      \<lparr>state = 1, time = 1, cost_to_come = 1, is_viable = False, best_parent = Some 0,
       children = [], trajs_to_children = []\<rparr>,
      \<lparr>state = 2, time = 2, cost_to_come = 2, is_viable = False, best_parent = Some 0,
       children = [], trajs_to_children = []\<rparr>]))
   \<and> 0 < Size (SubPlan example_planner 2 0 2)
   \<and> dist (0 :: real) 2 \<le> search_radius example_planner"
  by code_simp









text \<open>
  The round that connects a goal in a run of \<open>Plan\<close>: the sample node has the goal node
  as its only child, so \<open>UpdateDescendants\<close> returns after two nodes, one ancestor is
  marked, and \<open>ExtractTrajectory\<close> returns after at most three nodes.
\<close>

lemma node_eq_refl: "node_eq a a"
  by (simp add: node_eq_def isApprox_def)

lemma find_child_bounds:
  "find_child h node i cs = Some ii \<Longrightarrow> i \<le> ii \<and> ii < i + length cs"
proof (induction cs arbitrary: i)
  case Nil
  then show ?case by simp
next
  case (Cons c cs)
  show ?case
  proof (cases "node_eq (h ! c) (h ! node)")
    case True
    with Cons.prems show ?thesis by simp
  next
    case False
    with Cons.prems have "find_child h node (i + 1) cs = Some ii" by simp
    from Cons.IH [OF this] show ?thesis by simp
  qed
qed

lemma traj_to_child_aligned:
  assumes "length (trajs_to_children (h ! parent)) = length (children (h ! parent))"
  shows "\<exists>r. traj_to_child h parent node = Inr r"
proof (cases "find_child h node 0 (children (h ! parent))")
  case None
  then show ?thesis by (simp add: traj_to_child_def)
next
  case (Some ii)
  from find_child_bounds [OF Some] assms Some show ?thesis
    by (simp add: traj_to_child_def)
qed

lemma UpdateDescendants_single_edge:
  assumes "a \<noteq> start" and "a < length h" and "c < length h" and "a \<noteq> c"
    and "children (h ! a) = [c]" and "trajs_to_children (h ! a) = [T]"
    and "best_parent (h ! c) = Some p" and "children (h ! c) = []"
  shows "UpdateDescendants h a start =
         Some (Inr (h[a := (h ! a)\<lparr>trajs_to_children := [ResetFirstTime T (time (h ! a))]\<rparr>,
                      c := (h ! c)\<lparr>best_parent := Some a,
                                    time := double_add (time (h ! a))
                                              (Duration (ResetFirstTime T (time (h ! a)))),
                                    cost_to_come := double_add (cost_to_come (h ! a))
                                              (Cost (ResetFirstTime T (time (h ! a))))\<rparr>]))"
proof -
  let ?h1 = "h[a := (h ! a)\<lparr>trajs_to_children := [ResetFirstTime T (time (h ! a))]\<rparr>]"
  let ?h2 = "?h1[c := (h ! c)\<lparr>best_parent := Some a,
                                    time := double_add (time (h ! a))
                                              (Duration (ResetFirstTime T (time (h ! a)))),
                                    cost_to_come := double_add (cost_to_come (h ! a))
                                              (Cost (ResetFirstTime T (time (h ! a))))\<rparr>]"
  have uc: "update_child h a 0 = Inr ?h2"
    using assms by (simp add: update_child_def reattach_condition_def Let_def)
  have kids: "update_children h a [0..<length (children (h ! a))] = Inr ?h2"
    using assms(5) uc by simp
  have last_round: "UpdateDescendants_loop ?h2 [c] start = Some (Inr ?h2)"
  proof (cases "c = start")
    case True
    then show ?thesis
      by (subst UpdateDescendants_loop.simps, simp, subst UpdateDescendants_loop.simps, simp)
  next
    case False
    have "children (?h2 ! c) = []"
      using assms by simp
    with False show ?thesis
      by (subst UpdateDescendants_loop.simps, simp, subst UpdateDescendants_loop.simps, simp)
  qed
  show ?thesis
    unfolding UpdateDescendants_def
    by (subst UpdateDescendants_loop.simps) (use assms(1,5) kids last_round in simp)
qed

lemma mark_viable_one:
  assumes "p < length h" and "\<not> is_viable (h ! p)" and "best_parent (h ! p) = Some q"
    and "q \<noteq> p" and "q < length h" and "is_viable (h ! q)"
  shows "mark_viable h (Some p) = h[p := (h ! p)\<lparr>is_viable := True\<rparr>]"
proof -
  have "mark_viable (h[p := (h ! p)\<lparr>is_viable := True\<rparr>]) (Some q)
          = h[p := (h ! p)\<lparr>is_viable := True\<rparr>]"
    using assms by (subst mark_viable.simps) simp
  with assms show ?thesis
    by (subst mark_viable.simps) simp
qed

lemma ExtractTrajectory_two_hops:
  assumes "best_parent (h ! g) = Some a"
    and "children (h ! a) = [g]" and "trajs_to_children (h ! a) = [T]"
    and "best_parent (h ! a) = Some s"
    and "length (trajs_to_children (h ! s)) = length (children (h ! s))"
  shows "\<exists>traj. ExtractTrajectory h s g = Some (Inr traj)"
proof -
  have at_start: "ExtractTrajectory_loop h s s (t # ts) = Some (Inr (t # ts))" for t ts
    by (subst ExtractTrajectory_loop.simps) (simp add: node_eq_refl)
  have first: "traj_to_child h a g = Inr (Some T)"
    using assms(2,3) by (simp add: traj_to_child_def node_eq_refl)
  have second: "\<exists>ts. ExtractTrajectory_loop h s a [T] = Some (Inr ts)"
  proof (cases "node_eq (h ! a) (h ! s)")
    case True
    then show ?thesis
      by (subst ExtractTrajectory_loop.simps) simp
  next
    case False
    from traj_to_child_aligned [OF assms(5)] obtain r where r: "traj_to_child h s a = Inr r" ..
    show ?thesis
    proof (cases r)
      case None
      with False r assms(4) at_start [of T "[]"] show ?thesis
        by (subst ExtractTrajectory_loop.simps) simp
    next
      case (Some T')
      with False r assms(4) at_start [of T' "[T]"] show ?thesis
        by (subst ExtractTrajectory_loop.simps) simp
    qed
  qed
  then obtain ts where "ExtractTrajectory_loop h s a [T] = Some (Inr ts)" ..
  with assms(1) first have "ExtractTrajectory_loop h s g [] = Some (Inr ts)"
    by (subst ExtractTrajectory_loop.simps) simp
  then show ?thesis
    by (simp add: ExtractTrajectory_def)
qed

text \<open>
  Every round of the loop of \<open>Plan\<close> returns without an error and keeps the shape of the
  store, and so does the loop on every list of samples.
\<close>

lemma open_inv_plan_inv: "open_inv h t0 \<Longrightarrow> plan_inv h t0"
  by (simp add: open_inv_def plan_inv_def)

lemma open_inv_initial: "open_inv (initial_heap P start goal start_time) start_time"
  by (simp add: open_inv_def initial_heap_def start_node_def goal_node_def)

lemma KnnSearch_graph_set: "n \<in> set (KnnSearch h graph_set x k) \<Longrightarrow> n = 0"
  by (auto simp: KnnSearch_def graph_set_def dest: in_set_takeD)

lemma RadiusSearch_goal_set: "n \<in> set (RadiusSearch h goal_set x r) \<Longrightarrow> n = 1"
  by (auto simp: RadiusSearch_def goal_set_def split: if_splits)

lemma open_inv_attached:
  assumes "open_inv h t0"
  shows "open_inv (attached h 0 x sub) t0"
proof -
  let ?h1 = "attached h 0 x sub"
  from assms have len: "2 \<le> length h" by (simp add: open_inv_def)
  then have pos: "0 < length h" by linarith
  have zero: "?h1 ! 0 = (h ! 0)\<lparr>children := children (h ! 0) @ [length h],
                 trajs_to_children := trajs_to_children (h ! 0) @ [sub]\<rparr>"
    using pos by (rule attached_parent)
  have one: "?h1 ! 1 = h ! 1"
    using len by (intro attached_other) simp_all
  have new: "?h1 ! length h = sample_node_of h 0 x sub"
    using pos by (rule attached_new)
  have old: "?h1 ! n = h ! n" if "2 \<le> n" "n < length h" for n
    using that by (intro attached_other) simp_all
  have samples: "best_parent (?h1 ! n) = Some 0 \<and> children (?h1 ! n) = [] \<and>
        trajs_to_children (?h1 ! n) = [] \<and>
        (\<exists>d. time (?h1 ! n) = double_add t0 d \<and> cost_to_come (?h1 ! n) = double_add 0 d)"
    if "2 \<le> n" "n < length ?h1" for n
  proof (cases "n = length h")
    case True
    with new assms show ?thesis
      by (auto simp: sample_node_of_def open_inv_def Cost_def)
  next
    case False
    with that have "n < length h" by (simp add: attached_length)
    with that(1) old assms show ?thesis by (simp add: open_inv_def)
  qed
  from assms zero one samples len show ?thesis
    unfolding open_inv_def [of ?h1] by (auto simp: attached_length open_inv_def)
qed

lemma goal_connected:
  fixes h1 :: "('s::real_normed_vector) heap" and T :: "'s trajectory"
  assumes inv: "open_inv h1 t0" and sn: "2 \<le> sn" "sn < length h1"
    and nv: "\<not> is_viable (h1 ! sn)"
  defines "h2 \<equiv> h1[sn := (h1 ! sn)\<lparr>children := children (h1 ! sn) @ [1],
                      trajs_to_children := trajs_to_children (h1 ! sn) @ [T]\<rparr>]"
  shows "\<exists>h4. rewire h2 graph_set goal_set True sn 1 = Some (Inr h4)
           \<and> plan_inv (mark_viable h4 (Some sn)) t0
           \<and> (\<exists>traj. ExtractTrajectory (mark_viable h4 (Some sn)) 0 1 = Some (Inr traj))"
proof -
  from inv sn have sample: "best_parent (h1 ! sn) = Some 0" "children (h1 ! sn) = []"
    "trajs_to_children (h1 ! sn) = []"
    "\<exists>d. time (h1 ! sn) = double_add t0 d \<and> cost_to_come (h1 ! sn) = double_add 0 d"
    by (simp_all add: open_inv_def)
  from inv have goal: "best_parent (h1 ! 1) = None" "children (h1 ! 1) = []"
    and root: "best_parent (h1 ! 0) = None" "is_viable (h1 ! 0)"
      "length (trajs_to_children (h1 ! 0)) = length (children (h1 ! 0))"
      "\<forall>c \<in> set (children (h1 ! 0)). 2 \<le> c \<and> c < length h1"
    and others: "\<forall>n. 2 \<le> n \<and> n < length h1 \<longrightarrow>
        best_parent (h1 ! n) = Some 0 \<and> children (h1 ! n) = [] \<and>
        (\<exists>d. time (h1 ! n) = double_add t0 d \<and> cost_to_come (h1 ! n) = double_add 0 d)"
    by (simp_all add: open_inv_def)
  from sn have ne: "sn \<noteq> 0" "sn \<noteq> 1" "1 < length h1" "0 < length h1" by linarith+
  define h3 where "h3 = h2[1 := (h2 ! 1)\<lparr>best_parent := Some sn\<rparr>]"
  define R where "R = ResetFirstTime T (time (h3 ! sn))"
  define h4 where "h4 = h3[sn := (h3 ! sn)\<lparr>trajs_to_children := [R]\<rparr>,
      1 := (h3 ! 1)\<lparr>best_parent := Some sn,
                    time := double_add (time (h3 ! sn)) (Duration R),
                    cost_to_come := double_add (cost_to_come (h3 ! sn)) (Cost R)\<rparr>]"
  define h5 where "h5 = h4[sn := (h4 ! sn)\<lparr>is_viable := True\<rparr>]"
  have len: "length h2 = length h1" "length h3 = length h1" "length h4 = length h1"
    "length h5 = length h1"
    by (simp_all add: h2_def h3_def h4_def h5_def)
  have h3_sn: "h3 ! sn = (h1 ! sn)\<lparr>children := [1], trajs_to_children := [T]\<rparr>"
    using sn ne sample by (simp add: h3_def h2_def)
  have h3_1: "h3 ! 1 = (h1 ! 1)\<lparr>best_parent := Some sn\<rparr>"
    using sn ne by (simp add: h3_def h2_def)
  have rw: "rewire h2 graph_set goal_set True sn 1 = UpdateDescendants h3 sn 0"
    using sn ne goal by (simp add: rewire_def h3_def h2_def graph_set_def)
  have "UpdateDescendants h3 sn 0 = Some (Inr h4)"
    unfolding h4_def R_def
    by (rule UpdateDescendants_single_edge [where p = sn])
      (use sn ne len h3_sn h3_1 goal in simp_all)
  with rw have step1: "rewire h2 graph_set goal_set True sn 1 = Some (Inr h4)" by simp
  have h4_sn: "h4 ! sn = (h1 ! sn)\<lparr>children := [1], trajs_to_children := [R]\<rparr>"
    using sn ne len h3_sn by (simp add: h4_def)
  have h4_0: "h4 ! 0 = h1 ! 0"
    using sn ne by (simp add: h4_def h3_def h2_def)
  have mv: "mark_viable h4 (Some sn) = h5"
    unfolding h5_def
    by (rule mark_viable_one [where q = 0])
      (use sn ne len h4_sn h4_0 nv sample root in simp_all)
  have h5_sn: "h5 ! sn = (h1 ! sn)\<lparr>children := [1], trajs_to_children := [R], is_viable := True\<rparr>"
    using sn len h4_sn by (simp add: h5_def)
  have h5_0: "h5 ! 0 = h1 ! 0"
    using ne h4_0 by (simp add: h5_def)
  have h5_1: "h5 ! 1 = (h1 ! 1)\<lparr>best_parent := Some sn,
                    time := double_add (time (h3 ! sn)) (Duration R),
                    cost_to_come := double_add (cost_to_come (h3 ! sn)) (Cost R)\<rparr>"
    using sn ne len h3_1 by (simp add: h5_def h4_def)
  have h5_other: "h5 ! n = h1 ! n" if "n \<noteq> sn" "n \<noteq> 1" for n
    using that by (simp add: h5_def h4_def h3_def h2_def)
  have ex: "\<exists>traj. ExtractTrajectory h5 0 1 = Some (Inr traj)"
    by (rule ExtractTrajectory_two_hops [where a = sn and T = R])
      (use h5_sn h5_1 h5_0 sample root in simp_all)
  have samples: "best_parent (h5 ! n) = Some 0 \<and> set (children (h5 ! n)) \<subseteq> {1} \<and>
        (\<exists>d. time (h5 ! n) = double_add t0 d \<and> cost_to_come (h5 ! n) = double_add 0 d)"
    if "2 \<le> n" "n < length h5" for n
  proof (cases "n = sn")
    case True
    with h5_sn sample show ?thesis by simp
  next
    case False
    with that have "h5 ! n = h1 ! n" by (intro h5_other) simp_all
    with that others len show ?thesis by simp
  qed
  have "plan_inv h5 t0"
    unfolding plan_inv_def
    using samples h5_0 h5_1 root goal sn len by auto
  with step1 mv ex show ?thesis by auto
qed

lemma iteration_open:
  fixes h :: "('s::real_normed_vector) heap"
  assumes "open_inv h t0"
  shows "(\<exists>h'. iteration P h graph_set goal_set True x = Some (Inr (Continue h'))
               \<and> open_inv h' t0)
         \<or> (\<exists>h' traj. iteration P h graph_set goal_set True x = Some (Inr (Return h' traj))
               \<and> plan_inv h' t0)"
proof (cases "attach_loop P h x (KnnSearch h graph_set x (num_neighbors P))")
  case None
  with assms show ?thesis by (simp add: iteration_def)
next
  case (Some a)
  obtain h1 sn where a: "a = (h1, sn)" by (cases a)
  from attach_loop_Some [OF Some [unfolded a]] KnnSearch_graph_set
  obtain sub where sn: "sn = length h" and h1: "h1 = attached h 0 x sub"
    by blast
  from assms have inv1: "open_inv h1 t0"
    unfolding h1 by (rule open_inv_attached)
  from assms have len: "2 \<le> length h" by (simp add: open_inv_def)
  have sn_bounds: "2 \<le> sn" "sn < length h1"
    using len sn h1 by (simp_all add: attached_length)
  have nv: "\<not> is_viable (h1 ! sn)"
    unfolding h1 sn by (rule attached_new_viable)
  obtain h2 child where c: "connect_loop P h1 x sn
      (RadiusSearch h1 goal_set x (search_radius P)) = (h2, child)"
    by (cases "connect_loop P h1 x sn (RadiusSearch h1 goal_set x (search_radius P))")
  show ?thesis
  proof (cases child)
    case None
    with c have "connect_loop P h1 x sn (RadiusSearch h1 goal_set x (search_radius P))
                   = (h1, None)"
      using connect_loop_None [of P h1 x sn "RadiusSearch h1 goal_set x (search_radius P)"]
      by simp
    with Some a inv1 show ?thesis by (simp add: iteration_def)
  next
    case (Some g)
    from connect_loop_Some [OF c [unfolded Some]] RadiusSearch_goal_set
    obtain T where g: "g = 1"
      and h2: "h2 = h1[sn := (h1 ! sn)\<lparr>children := children (h1 ! sn) @ [1],
                      trajs_to_children := trajs_to_children (h1 ! sn) @ [T]\<rparr>]"
      by blast
    from goal_connected [OF inv1 sn_bounds nv, of T]
    obtain h4 traj where "rewire h2 graph_set goal_set True sn 1 = Some (Inr h4)"
      and "plan_inv (mark_viable h4 (Some sn)) t0"
      and "ExtractTrajectory (mark_viable h4 (Some sn)) 0 1 = Some (Inr traj)"
      unfolding h2 by blast
    with \<open>attach_loop P h x (KnnSearch h graph_set x (num_neighbors P)) = Some a\<close> a c Some g
    show ?thesis
      by (simp add: iteration_def graph_set_def goal_set_def)
  qed
qed

lemma main_loop_open:
  fixes h :: "('s::real_normed_vector) heap"
  assumes "open_inv h t0"
  shows "\<exists>r. main_loop P h graph_set goal_set True samples = Some (Inr r)
             \<and> plan_inv (heap_of r) t0"
  using assms
proof (induction samples arbitrary: h)
  case Nil
  then show ?case by (simp add: open_inv_plan_inv)
next
  case (Cons x xs)
  from iteration_open [OF Cons.prems, of P x] show ?case
  proof (elim disjE exE conjE)
    fix h'
    assume "iteration P h graph_set goal_set True x = Some (Inr (Continue h'))"
      and "open_inv h' t0"
    with Cons.IH [of h'] show ?thesis by simp
  next
    fix h' traj
    assume "iteration P h graph_set goal_set True x = Some (Inr (Return h' traj))"
      and "plan_inv h' t0"
    then show ?thesis by simp
  qed
qed

lemma plan_loop_plan_inv:
  "\<exists>r. plan_loop P start goal start_time samples = Some (Inr r)
       \<and> plan_inv (heap_of r) start_time"
  unfolding plan_loop_def by (rule main_loop_open) (rule open_inv_initial)











text \<open>The run on the samples 1 and 8: the second sample connects the goal.\<close>

lemma goal_run:
  "plan_loop example_planner 0 10 0 [1, 8] = Some (Inr (Return
     [\<lparr>state = 0, time = 0, cost_to_come = 0, is_viable = True, best_parent = None,
       children = [2, 3],
       trajs_to_children = [\<lparr>traj_states = [0, 1], traj_times = [0, 1]\<rparr>,
                            \<lparr>traj_states = [0, 8], traj_times = [0, 8]\<rparr>]\<rparr>,
      \<lparr>state = 10, time = 10, cost_to_come = 10, is_viable = True, best_parent = Some 3,
       children = [], trajs_to_children = []\<rparr>,
      \<lparr>state = 1, time = 1, cost_to_come = 1, is_viable = False, best_parent = Some 0,
       children = [], trajs_to_children = []\<rparr>,
      \<lparr>state = 8, time = 8, cost_to_come = 8, is_viable = True, best_parent = Some 0,
       children = [1],
       trajs_to_children = [\<lparr>traj_states = [8, 10], traj_times = [8, 10]\<rparr>]\<rparr>]
     \<lparr>traj_states = [0, 8, 8, 10], traj_times = [0, 8, 8, 10]\<rparr>))"
  by code_simp

lemma ancestor_of_root: "best_parent (h ! n) = None \<Longrightarrow> ancestor h (Suc k) n = None"
  by simp

lemma plan_inv_chain:
  assumes "plan_inv h t0" and "n < length h"
  shows "(\<exists>k root. ancestor h k n = Some root \<and> root < length h
                 \<and> best_parent (h ! root) = None)
         \<and> (\<forall>k > 0. ancestor h k n \<noteq> Some n)"
proof -
  from assms(1) have root: "best_parent (h ! 0) = None" and len: "2 \<le> length h"
    and sample: "\<And>m. 2 \<le> m \<Longrightarrow> m < length h \<Longrightarrow> best_parent (h ! m) = Some 0"
    and goal: "best_parent (h ! 1) = None
      \<or> (\<exists>m. 2 \<le> m \<and> m < length h \<and> best_parent (h ! 1) = Some m)"
    by (simp_all add: plan_inv_def)
  from len have pos: "0 < length h" by linarith
  have two_up: "ancestor h (Suc k) m = (if k = 0 then Some 0 else None)"
    if "2 \<le> m" "m < length h" for m k
    using sample [OF that] root by (cases k) simp_all
  consider "n = 0" | "n = 1" "best_parent (h ! 1) = None"
    | m where "n = 1" "2 \<le> m" "m < length h" "best_parent (h ! 1) = Some m"
    | "2 \<le> n"
    using goal by (cases "n = 0"; cases "n = 1") auto
  then show ?thesis
  proof cases
    case 1
    have "ancestor h 0 n = Some 0" using 1 by simp
    moreover have "ancestor h k n \<noteq> Some n" if "0 < k" for k
      using that 1 root by (cases k) simp_all
    ultimately show ?thesis using root pos by blast
  next
    case 2
    have "ancestor h 0 n = Some 1" using 2 by simp
    moreover have "ancestor h k n \<noteq> Some n" if "0 < k" for k
      using that 2 by (cases k) simp_all
    ultimately show ?thesis using 2 assms(2) by blast
  next
    case 3
    have "ancestor h (Suc (Suc 0)) n = Some 0"
      using 3 two_up [of m 0] by simp
    moreover have "ancestor h k n \<noteq> Some n" if "0 < k" for k
    proof (cases k)
      case 0
      with that show ?thesis by simp
    next
      case (Suc j)
      show ?thesis
      proof (cases j)
        case 0
        with Suc 3 show ?thesis by simp
      next
        case (Suc i)
        with \<open>k = Suc j\<close> 3 two_up [of m i] show ?thesis by simp
      qed
    qed
    ultimately show ?thesis using root pos by blast
  next
    case 4
    have "ancestor h (Suc 0) n = Some 0"
      using two_up [OF 4 assms(2), of 0] by simp
    moreover have "ancestor h k n \<noteq> Some n" if "0 < k" for k
    proof (cases k)
      case 0
      with that show ?thesis by simp
    next
      case (Suc j)
      with two_up [OF 4 assms(2), of j] 4 show ?thesis by (simp split: if_splits)
    qed
    ultimately show ?thesis using root pos by blast
  qed
qed

text \<open>
  C5 (in every store reachable by the planner, following \<open>best_parent\<close> from any node
  reaches a node with a null \<open>best_parent\<close> in finitely many steps, and no cycle forms).
  For every planner, start, goal, start time and list of samples, the loop of \<open>Plan\<close>
  returns without an error, and in the store it ends with (at a \<open>return\<close> or at the
  deadline, so also between any two rounds) every node has an ancestor without a
  parent and is not its own ancestor.
\<close>

theorem best_parent_chain_reaches_root:
  "\<exists>r. plan_loop P start goal start_time samples = Some (Inr r)
       \<and> (\<forall>n < length (heap_of r).
             (\<exists>k root. ancestor (heap_of r) k n = Some root \<and> root < length (heap_of r)
                       \<and> best_parent (heap_of r ! root) = None)
             \<and> (\<forall>k > 0. ancestor (heap_of r) k n \<noteq> Some n))"
proof -
  from plan_loop_plan_inv [of P start goal start_time samples]
  obtain r where run: "plan_loop P start goal start_time samples = Some (Inr r)"
    and inv: "plan_inv (heap_of r) start_time"
    by blast
  from plan_inv_chain [OF inv] run show ?thesis by blast
qed

theorem best_parent_chain_reaches_root_witness:
  "\<exists>r. plan_loop example_planner 0 10 0 [1, 8] = Some (Inr r)
       \<and> (1 :: nat) < length (heap_of r)
       \<and> (\<exists>k root. ancestor (heap_of r) k 1 = Some root \<and> root < length (heap_of r)
                    \<and> best_parent (heap_of r ! root) = None)
       \<and> ancestor (heap_of r) 2 1 \<noteq> Some 1"
proof -
  from best_parent_chain_reaches_root [of example_planner 0 10 0 "[1, 8]"]
  obtain r where run: "plan_loop example_planner 0 10 0 [1, 8] = Some (Inr r)"
    and chain: "\<forall>n < length (heap_of r).
             (\<exists>k root. ancestor (heap_of r) k n = Some root \<and> root < length (heap_of r)
                       \<and> best_parent (heap_of r ! root) = None)
             \<and> (\<forall>k > 0. ancestor (heap_of r) k n \<noteq> Some n)"
    by blast
  from run have len: "(1 :: nat) < length (heap_of r)"
    unfolding goal_run by auto
  with chain have "(\<exists>k root. ancestor (heap_of r) k 1 = Some root \<and> root < length (heap_of r)
                       \<and> best_parent (heap_of r ! root) = None)
             \<and> (\<forall>k > 0. ancestor (heap_of r) k 1 \<noteq> Some 1)"
    by blast
  then have "(\<exists>k root. ancestor (heap_of r) k 1 = Some root \<and> root < length (heap_of r)
                       \<and> best_parent (heap_of r ! root) = None)
             \<and> ancestor (heap_of r) 2 1 \<noteq> Some 1"
    by simp
  with run len show ?thesis by blast
qed




text \<open>
  The attach step adds the sub-plan's duration to the parent's time and to the parent's
  cost to come, each sum rounded to a double.
\<close>

lemma attach_loop_increments:
  assumes "attach_loop P h sample nbs = Some (h1, sample_node)"
    and "\<forall>n \<in> set nbs. n < length h"
  shows "\<exists>parent \<in> set nbs. \<exists>d.
           d = Duration (SubPlan P (state (h ! parent)) sample (time (h ! parent)))
           \<and> time (h1 ! sample_node) = double_add (time (h ! parent)) d
           \<and> cost_to_come (h1 ! sample_node) = double_add (cost_to_come (h ! parent)) d"
proof -
  from attach_loop_Some [OF assms(1)] obtain parent
    where p: "parent \<in> set nbs" and sn: "sample_node = length h"
      and h1: "h1 = attached h parent sample
                 (SubPlan P (state (h ! parent)) sample (time (h ! parent)))"
    by blast
  from p assms(2) have "parent < length h" by simp
  then have "h1 ! sample_node = sample_node_of h parent sample
                 (SubPlan P (state (h ! parent)) sample (time (h ! parent)))"
    unfolding h1 sn by (rule attached_new)
  then have "time (h1 ! sample_node) = double_add (time (h ! parent))
                (Duration (SubPlan P (state (h ! parent)) sample (time (h ! parent))))
      \<and> cost_to_come (h1 ! sample_node) = double_add (cost_to_come (h ! parent))
                (Duration (SubPlan P (state (h ! parent)) sample (time (h ! parent))))"
    by (simp add: sample_node_of_def Cost_def)
  with p show ?thesis by blast
qed

text \<open>
  C10 (the default cost of a trajectory is its duration, so every sample node that the
  attach step creates has \<open>cost_to_come = time - start_time\<close>). The first half holds. The
  second fails in double arithmetic: with the start time \<open>2\<^sup>5\<^sup>3\<close> and a sub-plan of duration 1
  the sample node gets the time \<open>2\<^sup>5\<^sup>3 + 1\<close> rounded, which is \<open>2\<^sup>5\<^sup>3\<close>, and the cost 1,
  while \<open>time - start_time\<close> is 0.
\<close>

theorem cost_to_come_rounding_counterexample:
  "plan_loop unit_planner 0 10 (2 ^ 53) [1] = Some (Inr (Continue
     [\<lparr>state = 0, time = 2 ^ 53, cost_to_come = 0, is_viable = True, best_parent = None,
       children = [2],
       trajs_to_children = [\<lparr>traj_states = [0, 1], traj_times = [0, 1]\<rparr>]\<rparr>,
      \<lparr>state = 10, time = 1000000, cost_to_come = 1000000, is_viable = True,
       best_parent = None, children = [], trajs_to_children = []\<rparr>,
      \<lparr>state = 1, time = 2 ^ 53, cost_to_come = 1, is_viable = False, best_parent = Some 0,
       children = [], trajs_to_children = []\<rparr>]))
   \<and> Duration (unit_plan 0 1 (2 ^ 53)) = 1
   \<and> (1 :: real) \<noteq> 2 ^ 53 - 2 ^ 53"
  by code_simp

text \<open>
  C10 as amended: the default cost of a trajectory is its duration; the attach step
  sets the time and the cost to come of a sample node to the parent's plus the same
  \<open>d\<close>, the sub-plan's duration, each sum rounded to a double; so in a run of \<open>Plan\<close>
  every sample node (the nodes from index 2 on) has the time \<open>start_time + d\<close> rounded
  and the cost to come \<open>0 + d\<close> rounded for one \<open>d\<close>, and
  \<open>cost_to_come = time - start_time\<close> holds when the start time is 0, the default of
  \<open>Plan\<close>.
\<close>

theorem sample_time_and_cost_increments:
  "Cost traj = Duration traj
   \<and> (\<forall>h sample nbs h1 sample_node.
          attach_loop P h sample nbs = Some (h1, sample_node) \<and> (\<forall>n \<in> set nbs. n < length h)
          \<longrightarrow> (\<exists>parent \<in> set nbs. \<exists>d.
                 d = Duration (SubPlan P (state (h ! parent)) sample (time (h ! parent)))
                 \<and> time (h1 ! sample_node) = double_add (time (h ! parent)) d
                 \<and> cost_to_come (h1 ! sample_node) = double_add (cost_to_come (h ! parent)) d))
   \<and> (\<exists>r. plan_loop P start goal start_time samples = Some (Inr r)
          \<and> (\<forall>n. 2 \<le> n \<and> n < length (heap_of r) \<longrightarrow>
                (\<exists>d. time (heap_of r ! n) = double_add start_time d
                     \<and> cost_to_come (heap_of r ! n) = double_add 0 d)
                \<and> (start_time = 0 \<longrightarrow>
                     cost_to_come (heap_of r ! n) = time (heap_of r ! n) - start_time)))"
proof -
  have inc: "\<forall>h sample nbs h1 sample_node.
          attach_loop P h sample nbs = Some (h1, sample_node) \<and> (\<forall>n \<in> set nbs. n < length h)
          \<longrightarrow> (\<exists>parent \<in> set nbs. \<exists>d.
                 d = Duration (SubPlan P (state (h ! parent)) sample (time (h ! parent)))
                 \<and> time (h1 ! sample_node) = double_add (time (h ! parent)) d
                 \<and> cost_to_come (h1 ! sample_node) = double_add (cost_to_come (h ! parent)) d)"
    using attach_loop_increments [of P] by blast
  from plan_loop_plan_inv [of P start goal start_time samples]
  obtain r where run: "plan_loop P start goal start_time samples = Some (Inr r)"
    and inv: "plan_inv (heap_of r) start_time"
    by blast
  have "(\<exists>d. time (heap_of r ! n) = double_add start_time d
             \<and> cost_to_come (heap_of r ! n) = double_add 0 d)
        \<and> (start_time = 0 \<longrightarrow>
             cost_to_come (heap_of r ! n) = time (heap_of r ! n) - start_time)"
    if "2 \<le> n \<and> n < length (heap_of r)" for n
  proof -
    from inv that obtain d where d: "time (heap_of r ! n) = double_add start_time d"
      "cost_to_come (heap_of r ! n) = double_add 0 d"
      unfolding plan_inv_def by blast
    then show ?thesis by auto
  qed
  with run have "\<exists>r. plan_loop P start goal start_time samples = Some (Inr r)
          \<and> (\<forall>n. 2 \<le> n \<and> n < length (heap_of r) \<longrightarrow>
                (\<exists>d. time (heap_of r ! n) = double_add start_time d
                     \<and> cost_to_come (heap_of r ! n) = double_add 0 d)
                \<and> (start_time = 0 \<longrightarrow>
                     cost_to_come (heap_of r ! n) = time (heap_of r ! n) - start_time))"
    by blast
  moreover have "Cost traj = Duration traj" by (simp add: Cost_def)
  ultimately show ?thesis using inc by blast
qed

theorem sample_time_and_cost_increments_witness:
  "(\<exists>r. plan_loop example_planner 0 10 0 [1, 8] = Some (Inr r)
       \<and> (2 :: nat) \<le> 3 \<and> 3 < length (heap_of r)
       \<and> cost_to_come (heap_of r ! 3) = time (heap_of r ! 3) - 0
       \<and> cost_to_come (heap_of r ! 3) = 8)
   \<and> attach_loop example_planner (initial_heap example_planner 0 10 0) 1 [0]
       = Some (attached (initial_heap example_planner 0 10 0) 0 1 (straight_line 0 1 0), 2)
   \<and> time (attached (initial_heap example_planner 0 10 0) 0 1 (straight_line 0 1 0) ! 2)
       = double_add 0 1
   \<and> cost_to_come (attached (initial_heap example_planner 0 10 0) 0 1 (straight_line 0 1 0) ! 2)
       = double_add 0 1"
proof -
  let ?h = "initial_heap example_planner 0 10 0"
  let ?h1 = "attached ?h 0 1 (straight_line 0 1 0)"
  note inst = sample_time_and_cost_increments
    [of empty_trajectory example_planner 0 10 0 "[1, 8]"]
  from inst obtain r where run: "plan_loop example_planner 0 10 0 [1, 8] = Some (Inr r)"
    and inv: "\<forall>n. 2 \<le> n \<and> n < length (heap_of r) \<longrightarrow>
                ((0 :: real) = 0 \<longrightarrow>
                   cost_to_come (heap_of r ! n) = time (heap_of r ! n) - 0)"
    by blast
  from run have len: "3 < length (heap_of r)" and c: "cost_to_come (heap_of r ! 3) = 8"
    unfolding goal_run by auto
  from inv len have "cost_to_come (heap_of r ! 3) = time (heap_of r ! 3) - 0" by simp
  with run len c have first: "\<exists>r. plan_loop example_planner 0 10 0 [1, 8] = Some (Inr r)
       \<and> (2 :: nat) \<le> 3 \<and> 3 < length (heap_of r)
       \<and> cost_to_come (heap_of r ! 3) = time (heap_of r ! 3) - 0
       \<and> cost_to_come (heap_of r ! 3) = 8"
    by auto
  have a: "attach_loop example_planner ?h 1 [0] = Some (?h1, 2)"
    by code_simp
  have b: "\<forall>n \<in> set [0 :: nat]. n < length ?h"
    by (simp add: initial_heap_def)
  have d: "Duration (SubPlan example_planner (state (?h ! 0)) 1 (time (?h ! 0))) = 1"
    and t: "time (?h ! 0) = 0" and k: "cost_to_come (?h ! 0) = 0"
    by code_simp+
  from inst a b have "\<exists>parent \<in> set [0 :: nat]. \<exists>d.
         d = Duration (SubPlan example_planner (state (?h ! parent)) 1 (time (?h ! parent)))
         \<and> time (?h1 ! 2) = double_add (time (?h ! parent)) d
         \<and> cost_to_come (?h1 ! 2) = double_add (cost_to_come (?h ! parent)) d"
    by blast
  with d t k have "time (?h1 ! 2) = double_add 0 1 \<and> cost_to_come (?h1 ! 2) = double_add 0 1"
    by simp
  with first a show ?thesis by blast
qed

end
